theory Spec2Isabelle
  imports Main "HOL-Library.Sublist"
begin

section \<open>Exceptions\<close>

text \<open>
  The seven exception classes declared in \<^verbatim>\<open>scrapper.py\<close>, followed by the built-in
  Python exceptions that the modelled code can raise: a missing dictionary key, an
  operation on a value of the wrong type, an attribute access on \<^verbatim>\<open>None\<close>, a
  failed conversion, and a failure of the HTTP layer.
\<close>

datatype error =
    IncorrectSeedURLError
  | NumberOfArticlesOutOfRangeError
  | IncorrectNumberOfArticlesError
  | IncorrectHeadersError
  | IncorrectEncodingError
  | IncorrectTimeoutError
  | IncorrectVerifyError
  | KeyError
  | TypeError
  | AttributeError
  | ValueError
  | RequestException

section \<open>Configuration documents\<close>

text \<open>
  The value \<^verbatim>\<open>json.load\<close> returns. A Python \<^verbatim>\<open>dict\<close> is an association list;
  a float keeps the text of its literal, since the code only ever asks for its type.
\<close>

datatype json =
    JNull
  | JBool bool
  | JInt int
  | JFloat string
  | JStr string
  | JList "json list"
  | JObj "(string \<times> json) list"

text \<open>\<^verbatim>\<open>config[key]\<close>: only a dictionary can be indexed with a string.\<close>

definition subscript :: "json \<Rightarrow> string \<Rightarrow> error + json" where
  "subscript config k =
     (case config of
        JObj kvs \<Rightarrow> (case map_of kvs k of None \<Rightarrow> Inl KeyError | Some v \<Rightarrow> Inr v)
      | _ \<Rightarrow> Inl TypeError)"

text \<open>\<^verbatim>\<open>isinstance(v, int)\<close>: in Python \<^verbatim>\<open>bool\<close> is a subclass of \<^verbatim>\<open>int\<close>.\<close>

fun isinstance_int :: "json \<Rightarrow> bool" where
  "isinstance_int (JInt i) = True"
| "isinstance_int (JBool b) = True"
| "isinstance_int v = False"

fun isinstance_bool :: "json \<Rightarrow> bool" where
  "isinstance_bool (JBool b) = True"
| "isinstance_bool v = False"

fun isinstance_str :: "json \<Rightarrow> bool" where
  "isinstance_str (JStr s) = True"
| "isinstance_str v = False"

fun isinstance_dict :: "json \<Rightarrow> bool" where
  "isinstance_dict (JObj kvs) = True"
| "isinstance_dict v = False"

fun isinstance_list :: "json \<Rightarrow> bool" where
  "isinstance_list (JList xs) = True"
| "isinstance_list v = False"

text \<open>The number an \<^verbatim>\<open>int\<close> instance compares as: \<^verbatim>\<open>True\<close> is 1, \<^verbatim>\<open>False\<close> is 0.\<close>

fun int_value :: "json \<Rightarrow> int" where
  "int_value (JInt i) = i"
| "int_value (JBool b) = (if b then 1 else 0)"
| "int_value v = 0"

subsection \<open>The seed URL pattern\<close>

text \<open>
  The fragment of regular expressions that \<^verbatim>\<open>r'https?://(www.)?'\<close> uses: a literal
  character, the dot (any character but a newline) and an optional group.
  \<open>re_match\<close> is \<^verbatim>\<open>re.match\<close> read as a truth value: the pattern matches some
  prefix of the string. An optional group is greedy: it is tried first, and skipped when
  the rest fails.
\<close>

datatype rx = Lit char | AnyCh | Opt "rx list"

fun rx_weight :: "rx \<Rightarrow> nat" where
  "rx_weight (Lit c) = 1"
| "rx_weight AnyCh = 1"
| "rx_weight (Opt g) = Suc (sum_list (map rx_weight g))"

function re_match :: "rx list \<Rightarrow> string \<Rightarrow> bool" where
  "re_match [] s = True"
| "re_match (Lit c # rs) s = (case s of [] \<Rightarrow> False | x # xs \<Rightarrow> x = c \<and> re_match rs xs)"
| "re_match (AnyCh # rs) s =
     (case s of [] \<Rightarrow> False | x # xs \<Rightarrow> x \<noteq> CHR 0x0A \<and> re_match rs xs)"
| "re_match (Opt g # rs) s = (re_match (g @ rs) s \<or> re_match rs s)"
  by pat_completeness auto
termination
  by (relation "measure (\<lambda>(rs, s). sum_list (map rx_weight rs))") auto

definition seed_url_pattern :: "rx list" where
  "seed_url_pattern =
     map Lit ''http'' @ [Opt [Lit CHR ''s'']] @ map Lit ''://''
     @ [Opt [Lit CHR ''w'', Lit CHR ''w'', Lit CHR ''w'', AnyCh]]"

text \<open>
  \<^verbatim>\<open>all(re.match(r'https?://(www.)?', seed_url) for seed_url in ...)\<close>: the
  generator stops at the first element without a match; \<^verbatim>\<open>re.match\<close> raises
  \<^verbatim>\<open>TypeError\<close> on an element that is not a string.
\<close>

fun all_seed_urls_match :: "json list \<Rightarrow> error + bool" where
  "all_seed_urls_match [] = Inr True"
| "all_seed_urls_match (JStr s # xs) =
     (if re_match seed_url_pattern s then all_seed_urls_match xs else Inr False)"
| "all_seed_urls_match (v # xs) = Inl TypeError"

subsection \<open>Validation\<close>

text \<open>
  \<open>validate_config_content\<close> is a sequence of guarded \<^verbatim>\<open>raise\<close> statements; each
  guard is one function here, and \<open>then_check\<close> runs the next guard only when the
  previous one raised nothing.
\<close>

definition then_check :: "error + unit \<Rightarrow> error + 'a \<Rightarrow> error + 'a" where
  "then_check r next_check = (case r of Inl e \<Rightarrow> Inl e | Inr u \<Rightarrow> next_check)"

definition check_seed_urls :: "json \<Rightarrow> error + unit" where
  "check_seed_urls config =
     (case subscript config ''seed_urls'' of
        Inl e \<Rightarrow> Inl e
      | Inr v \<Rightarrow>
          (case v of
             JList xs \<Rightarrow>
               (case all_seed_urls_match xs of
                  Inl e \<Rightarrow> Inl e
                | Inr b \<Rightarrow> if \<not> b then Inl IncorrectSeedURLError else Inr ())
           | _ \<Rightarrow> Inl IncorrectSeedURLError))"

definition check_num_articles :: "json \<Rightarrow> error + unit" where
  "check_num_articles config =
     (case subscript config ''total_articles_to_find_and_parse'' of
        Inl e \<Rightarrow> Inl e
      | Inr v \<Rightarrow>
          if \<not> isinstance_int v \<or> int_value v \<le> 0 then Inl IncorrectNumberOfArticlesError
          else if \<not> (1 < int_value v \<and> int_value v \<le> 150)
          then Inl NumberOfArticlesOutOfRangeError
          else Inr ())"

definition check_headers :: "json \<Rightarrow> error + unit" where
  "check_headers config =
     (case subscript config ''headers'' of
        Inl e \<Rightarrow> Inl e
      | Inr v \<Rightarrow> if \<not> isinstance_dict v then Inl IncorrectHeadersError else Inr ())"

definition check_encoding :: "json \<Rightarrow> error + unit" where
  "check_encoding config =
     (case subscript config ''encoding'' of
        Inl e \<Rightarrow> Inl e
      | Inr v \<Rightarrow> if \<not> isinstance_str v then Inl IncorrectEncodingError else Inr ())"

definition check_timeout :: "json \<Rightarrow> error + unit" where
  "check_timeout config =
     (case subscript config ''timeout'' of
        Inl e \<Rightarrow> Inl e
      | Inr v \<Rightarrow>
          if \<not> isinstance_int v \<or> \<not> (0 < int_value v \<and> int_value v < 60)
          then Inl IncorrectTimeoutError
          else Inr ())"

definition check_verify :: "json \<Rightarrow> error + unit" where
  "check_verify config =
     (case subscript config ''should_verify_certificate'' of
        Inl e \<Rightarrow> Inl e
      | Inr v \<Rightarrow>
          if \<not> isinstance_bool v then Inl IncorrectVerifyError
          else (case subscript config ''headless_mode'' of
                  Inl e \<Rightarrow> Inl e
                | Inr h \<Rightarrow> if \<not> isinstance_bool h then Inl IncorrectVerifyError else Inr ()))"

definition validate_config_content :: "json \<Rightarrow> error + unit" where
  "validate_config_content config =
     then_check (check_seed_urls config)
    (then_check (check_num_articles config)
    (then_check (check_headers config)
    (then_check (check_encoding config)
    (then_check (check_timeout config)
                (check_verify config)))))"

subsection \<open>The configuration object\<close>

text \<open>
  Modelled from the spec: \<^verbatim>\<open>core_utils.config_dto.ConfigDTO\<close> is not part of the
  sources at hand; the record has the seven fields of the specification's data model.
  Each field has the type that validation has established for it by the time the record
  is built, so the readers below are total.
\<close>

record config =
  seed_urls :: "string list"
  num_articles :: int
  headers :: "(string \<times> json) list"
  encoding :: string
  timeout :: int
  should_verify_certificate :: bool
  headless_mode :: bool

fun str_items :: "json \<Rightarrow> string list" where
  "str_items (JList xs) = concat (map (\<lambda>x. case x of JStr s \<Rightarrow> [s] | _ \<Rightarrow> []) xs)"
| "str_items v = []"

fun dict_items :: "json \<Rightarrow> (string \<times> json) list" where
  "dict_items (JObj kvs) = kvs"
| "dict_items v = []"

fun str_value :: "json \<Rightarrow> string" where
  "str_value (JStr s) = s"
| "str_value v = []"

fun bool_value :: "json \<Rightarrow> bool" where
  "bool_value (JBool b) = b"
| "bool_value v = False"

definition bind_err :: "error + 'a \<Rightarrow> ('a \<Rightarrow> error + 'b) \<Rightarrow> error + 'b" where
  "bind_err r f = (case r of Inl e \<Rightarrow> Inl e | Inr v \<Rightarrow> f v)"

definition extract_config_content :: "json \<Rightarrow> error + config" where
  "extract_config_content doc =
     bind_err (subscript doc ''seed_urls'') (\<lambda>su.
     bind_err (subscript doc ''total_articles_to_find_and_parse'') (\<lambda>n.
     bind_err (subscript doc ''headers'') (\<lambda>h.
     bind_err (subscript doc ''encoding'') (\<lambda>e.
     bind_err (subscript doc ''timeout'') (\<lambda>t.
     bind_err (subscript doc ''should_verify_certificate'') (\<lambda>v.
     bind_err (subscript doc ''headless_mode'') (\<lambda>hm.
       Inr \<lparr>seed_urls = str_items su, num_articles = int_value n,
            headers = dict_items h, encoding = str_value e, timeout = int_value t,
            should_verify_certificate = bool_value v,
            headless_mode = bool_value hm\<rparr>)))))))"

text \<open>\<^verbatim>\<open>Config.__init__\<close>: validate, then read the fields.\<close>

definition Config_init :: "json \<Rightarrow> error + config" where
  "Config_init doc = then_check (validate_config_content doc) (extract_config_content doc)"

definition get_seed_urls :: "config \<Rightarrow> string list" where
  "get_seed_urls c = seed_urls c"

definition get_num_articles :: "config \<Rightarrow> int" where
  "get_num_articles c = num_articles c"

section \<open>Pages\<close>

text \<open>
  A parsed page, as BeautifulSoup presents it: a text node, or an element with its
  name, the tokens of its \<^verbatim>\<open>class\<close> attribute, its other attributes and its
  children. The document itself is an element whose children are the top-level nodes.
\<close>

datatype node =
    Text string
  | Tag string "string list" "(string \<times> string) list" "node list"

text \<open>All nodes below a node, in document order.\<close>

fun descendants :: "node \<Rightarrow> node list" where
  "descendants (Text s) = []"
| "descendants (Tag n cs as ch) = concat (map (\<lambda>c. c # descendants c) ch)"

text \<open>\<^verbatim>\<open>.text\<close>: the text nodes below a node, concatenated.\<close>

fun get_text :: "node \<Rightarrow> string" where
  "get_text (Text s) = s"
| "get_text (Tag n cs as ch) = concat (map get_text ch)"

fun join_space :: "string list \<Rightarrow> string" where
  "join_space [] = []"
| "join_space [x] = x"
| "join_space (x # y # zs) = x @ '' '' @ join_space (y # zs)"

fun has_name :: "string \<Rightarrow> node \<Rightarrow> bool" where
  "has_name name (Text s) = False"
| "has_name name (Tag n cs as ch) = (n = name)"

text \<open>
  A \<^verbatim>\<open>class_\<close> filter accepts an element when one of its class tokens is the
  wanted string, or when its tokens joined by single spaces are.
\<close>

fun has_class :: "string \<Rightarrow> node \<Rightarrow> bool" where
  "has_class c (Text s) = False"
| "has_class c (Tag n cs as ch) = (c \<in> set cs \<or> join_space cs = c)"

definition find_all :: "(node \<Rightarrow> bool) \<Rightarrow> node \<Rightarrow> node list" where
  "find_all p n = filter p (descendants n)"

definition find_first :: "(node \<Rightarrow> bool) \<Rightarrow> node \<Rightarrow> node option" where
  "find_first p n = (case find_all p n of [] \<Rightarrow> None | x # xs \<Rightarrow> Some x)"

text \<open>\<^verbatim>\<open>tag.get(key)\<close>: the attribute's value, or \<^verbatim>\<open>None\<close>.\<close>

fun get_attr :: "node \<Rightarrow> string \<Rightarrow> string option" where
  "get_attr (Text s) k = None"
| "get_attr (Tag n cs as ch) k = map_of as k"

section \<open>Requests\<close>

text \<open>
  A response is its \<^verbatim>\<open>ok\<close> flag and the document BeautifulSoup builds from its
  text. The network answers the \<open>k\<close>-th request of a run, made to a URL, with a response
  or with an exception of the HTTP layer. The pause before a request does not change its
  answer.
\<close>

record response =
  ok :: bool
  document :: node

type_synonym network = "nat \<Rightarrow> string \<Rightarrow> error + response"

definition make_request :: "network \<Rightarrow> nat \<Rightarrow> string \<Rightarrow> error + response" where
  "make_request net k url = net k url"

section \<open>Crawler\<close>

text \<open>
  \<open>urls\<close> is a Python list; its elements are strings or \<^verbatim>\<open>None\<close>.
\<close>

record crawler =
  urls :: "string option list"
  crawler_config :: config
  url_pattern :: string

definition Crawler_init :: "config \<Rightarrow> crawler" where
  "Crawler_init cfg =
     \<lparr>urls = [], crawler_config = cfg, url_pattern = ''https://www.comnews.ru/''\<rparr>"

definition get_search_urls :: "crawler \<Rightarrow> string list" where
  "get_search_urls c = get_seed_urls (crawler_config c)"

text \<open>
  The loop of \<open>_extract_url\<close> over the anchors: \<^verbatim>\<open>link.get('href').startswith\<close>
  raises on an anchor without the attribute; the first qualifying address that is not in
  the list is appended and returned; at the end of the anchors the function returns
  \<^verbatim>\<open>None\<close>.
\<close>

fun scan_links :: "node list \<Rightarrow> crawler \<Rightarrow> error + (string option \<times> crawler)" where
  "scan_links [] c = Inr (None, c)"
| "scan_links (link # links) c =
     (case get_attr link ''href'' of
        None \<Rightarrow> Inl AttributeError
      | Some h \<Rightarrow>
          if prefix ''/content/'' h
          then (let url = url_pattern c @ h in
                if Some url \<notin> set (urls c)
                then Inr (Some url, c\<lparr>urls := urls c @ [Some url]\<rparr>)
                else scan_links links c)
          else scan_links links c)"

definition extract_url :: "node \<Rightarrow> crawler \<Rightarrow> error + (string option \<times> crawler)" where
  "extract_url article_bs c =
     (case find_first (\<lambda>n. has_name ''div'' n \<and> has_class ''region region-content'' n)
             article_bs of
        None \<Rightarrow> Inl AttributeError
      | Some links \<Rightarrow> scan_links (find_all (has_name ''a'') links) c)"

text \<open>
  The \<^verbatim>\<open>for\<close> loop of \<open>find_articles\<close> over the seed addresses, with the count
  of requests made so far. A \<^verbatim>\<open>break\<close> leaves the loop with a list that is long
  enough, so the enclosing \<^verbatim>\<open>while\<close> ends too.
\<close>

fun visit_seeds ::
  "network \<Rightarrow> int \<Rightarrow> string list \<Rightarrow> crawler \<times> nat \<Rightarrow> error + (crawler \<times> nat)" where
  "visit_seeds net n_len [] (c, k) = Inr (c, k)"
| "visit_seeds net n_len (seed_url # rest) (c, k) =
     (case make_request net k seed_url of
        Inl e \<Rightarrow> Inl e
      | Inr r \<Rightarrow>
          if \<not> ok r then visit_seeds net n_len rest (c, Suc k)
          else
            (case extract_url (document r) c of
               Inl e \<Rightarrow> Inl e
             | Inr (new_url, c1) \<Rightarrow>
                 if int (length (urls c1)) \<ge> n_len then Inr (c1, Suc k)
                 else
                   (let c2 = c1\<lparr>urls := urls c1 @ [new_url]\<rparr> in
                    if int (length (urls c2)) \<ge> n_len then Inr (c2, Suc k)
                    else visit_seeds net n_len rest (c2, Suc k))))"

text \<open>The \<^verbatim>\<open>while\<close> loop; \<open>None\<close> is a run that never ends.\<close>

partial_function (option) discover ::
  "network \<Rightarrow> int \<Rightarrow> string list \<Rightarrow> crawler \<times> nat \<Rightarrow> (error + (crawler \<times> nat)) option" where
  "discover net n_len seeds st =
     (if int (length (urls (fst st))) < n_len
      then (case visit_seeds net n_len seeds st of
              Inl e \<Rightarrow> Some (Inl e)
            | Inr st' \<Rightarrow> discover net n_len seeds st')
      else Some (Inr st))"

definition find_articles ::
  "network \<Rightarrow> crawler \<times> nat \<Rightarrow> (error + (crawler \<times> nat)) option" where
  "find_articles net st =
     discover net (get_num_articles (crawler_config (fst st))) (get_search_urls (fst st)) st"

section \<open>Dates\<close>

text \<open>
  \<^verbatim>\<open>datetime.datetime.strptime(date_str, '%d.%m.%Y')\<close>. The library turns the format
  into the regular expression
  \<^verbatim>\<open>(3[0-1]|[1-2]\d|0[1-9]|[1-9]| [1-9])\.(1[0-2]|0[1-9]|[1-9])\.(\d\d\d\d)\<close>,
  matches it at the start of the string, rejects text left over after the match, and
  builds the date, which rejects a year 0 and a day the month does not have. Every
  rejection is a \<^verbatim>\<open>ValueError\<close>.
\<close>

record datetime =
  year :: nat
  month :: nat
  day :: nat
  hour :: nat
  minute :: nat
  second :: nat

definition is_digit :: "char \<Rightarrow> bool" where
  "is_digit c = (c \<in> set ''0123456789'')"

definition digit_val :: "char \<Rightarrow> nat" where
  "digit_val c = of_char c - 48"

text \<open>
  The ways the day group and the month group can match at the start of a string, in the
  order of their alternatives: the value read and the text after it.
\<close>

definition day_alts :: "string \<Rightarrow> (nat \<times> string) list" where
  "day_alts s =
     (case s of
        a # b # r \<Rightarrow>
          (if a = CHR ''3'' \<and> b \<in> set ''01'' then [(30 + digit_val b, r)] else [])
          @ (if a \<in> set ''12'' \<and> is_digit b then [(10 * digit_val a + digit_val b, r)] else [])
          @ (if a = CHR ''0'' \<and> b \<in> set ''123456789'' then [(digit_val b, r)] else [])
      | _ \<Rightarrow> [])
     @ (case s of a # r \<Rightarrow> (if a \<in> set ''123456789'' then [(digit_val a, r)] else [])
        | _ \<Rightarrow> [])
     @ (case s of
          a # b # r \<Rightarrow> (if a = CHR '' '' \<and> b \<in> set ''123456789'' then [(digit_val b, r)] else [])
        | _ \<Rightarrow> [])"

definition month_alts :: "string \<Rightarrow> (nat \<times> string) list" where
  "month_alts s =
     (case s of
        a # b # r \<Rightarrow>
          (if a = CHR ''1'' \<and> b \<in> set ''012'' then [(10 + digit_val b, r)] else [])
          @ (if a = CHR ''0'' \<and> b \<in> set ''123456789'' then [(digit_val b, r)] else [])
      | _ \<Rightarrow> [])
     @ (case s of a # r \<Rightarrow> (if a \<in> set ''123456789'' then [(digit_val a, r)] else [])
        | _ \<Rightarrow> [])"

definition year_match :: "string \<Rightarrow> (nat \<times> string) option" where
  "year_match s =
     (case s of
        a # b # c # d # r \<Rightarrow>
          if is_digit a \<and> is_digit b \<and> is_digit c \<and> is_digit d
          then Some (1000 * digit_val a + 100 * digit_val b + 10 * digit_val c + digit_val d, r)
          else None
      | _ \<Rightarrow> None)"

text \<open>The first alternative, in order, for which the rest of the pattern matches.\<close>

fun first_some :: "('a \<Rightarrow> 'b option) \<Rightarrow> 'a list \<Rightarrow> 'b option" where
  "first_some f [] = None"
| "first_some f (x # xs) = (case f x of Some y \<Rightarrow> Some y | None \<Rightarrow> first_some f xs)"

definition after_dot :: "string \<Rightarrow> string option" where
  "after_dot s = (case s of c # r \<Rightarrow> if c = CHR ''.'' then Some r else None | [] \<Rightarrow> None)"

definition match_dmY :: "string \<Rightarrow> (nat \<times> nat \<times> nat \<times> string) option" where
  "match_dmY s =
     first_some (\<lambda>(d, r1).
       case after_dot r1 of
         None \<Rightarrow> None
       | Some r2 \<Rightarrow>
           first_some (\<lambda>(m, r3).
             case after_dot r3 of
               None \<Rightarrow> None
             | Some r4 \<Rightarrow>
                 (case year_match r4 of
                    None \<Rightarrow> None
                  | Some (y, rest) \<Rightarrow> Some (d, m, y, rest)))
             (month_alts r2))
       (day_alts s)"

definition is_leap :: "nat \<Rightarrow> bool" where
  "is_leap y = (y mod 4 = 0 \<and> (y mod 100 \<noteq> 0 \<or> y mod 400 = 0))"

definition days_in_month :: "nat \<Rightarrow> nat \<Rightarrow> nat" where
  "days_in_month y m =
     (if m = 2 then (if is_leap y then 29 else 28)
      else if m \<in> {4, 6, 9, 11} then 30 else 31)"

definition unify_date_format :: "string \<Rightarrow> error + datetime" where
  "unify_date_format date_str =
     (case match_dmY date_str of
        None \<Rightarrow> Inl ValueError
      | Some (d, m, y, rest) \<Rightarrow>
          if rest \<noteq> [] then Inl ValueError
          else if y < 1 \<or> days_in_month y m < d then Inl ValueError
          else Inr \<lparr>year = y, month = m, day = d, hour = 0, minute = 0, second = 0\<rparr>)"

section \<open>Articles\<close>

text \<open>
  Modelled from the spec: \<^verbatim>\<open>core_utils.article.article.Article\<close> is not part of the
  sources at hand. The record has the fields of the specification's extracted record,
  under the names the parser assigns to (\<open>body_text\<close> stands for the attribute
  \<^verbatim>\<open>text\<close>); a fresh article has its address and its number,
  empty strings, empty lists and no date.
\<close>

record article =
  url :: string
  article_id :: int
  title :: string
  date :: "datetime option"
  author :: "string list"
  topics :: "string list"
  body_text :: string

definition Article :: "string \<Rightarrow> int \<Rightarrow> article" where
  "Article u i =
     \<lparr>url = u, article_id = i, title = [], date = None, author = [], topics = [],
      body_text = []\<rparr>"

section \<open>HTMLParser\<close>

record html_parser =
  full_url :: string
  parser_article_id :: int
  parser_config :: config
  parsed :: article

definition HTMLParser_init :: "string \<Rightarrow> int \<Rightarrow> config \<Rightarrow> html_parser" where
  "HTMLParser_init u i cfg =
     \<lparr>full_url = u, parser_article_id = i, parser_config = cfg, parsed = Article u i\<rparr>"

definition fill_article_with_text :: "node \<Rightarrow> article \<Rightarrow> article" where
  "fill_article_with_text article_soup a =
     a\<lparr>body_text :=
         concat (map get_text
           (find_all (has_class ''field field-text full-html field-name-body'') article_soup))\<rparr>"

text \<open>\<^verbatim>\<open>s.split(sep)\<close> with a separator: every occurrence splits, empty pieces stay.\<close>

fun split_by :: "(char \<Rightarrow> bool) \<Rightarrow> string \<Rightarrow> string list" where
  "split_by p [] = [[]]"
| "split_by p (c # cs) =
     (if p c then [] # split_by p cs
      else (case split_by p cs of w # ws \<Rightarrow> (c # w) # ws | [] \<Rightarrow> [[c]]))"

definition split_space :: "string \<Rightarrow> string list" where
  "split_space s = split_by (\<lambda>c. c = CHR '' '') s"

text \<open>The loop over the tag containers: \<^verbatim>\<open>topic.find('a').text\<close>.\<close>

fun topic_loop :: "node list \<Rightarrow> article \<Rightarrow> error + article" where
  "topic_loop [] a = Inr a"
| "topic_loop (topic # rest) a =
     (case find_first (has_name ''a'') topic of
        None \<Rightarrow> Inl AttributeError
      | Some l \<Rightarrow> topic_loop rest (a\<lparr>topics := topics a @ [get_text l]\<rparr>))"

text \<open>The loop over the author containers: \<^verbatim>\<open>author.find('span').text.split(' ')[-1]\<close>.\<close>

fun author_loop :: "node list \<Rightarrow> article \<Rightarrow> error + article" where
  "author_loop [] a = Inr a"
| "author_loop (au # rest) a =
     (case find_first (has_name ''span'') au of
        None \<Rightarrow> Inl AttributeError
      | Some sp \<Rightarrow>
          author_loop rest (a\<lparr>author := author a @ [last (split_space (get_text sp))]\<rparr>))"

definition fill_title :: "node \<Rightarrow> article \<Rightarrow> error + article" where
  "fill_title article_soup a =
     (case find_first (has_name ''h1'') article_soup of
        None \<Rightarrow> Inl AttributeError
      | Some h \<Rightarrow> Inr (a\<lparr>title := get_text h\<rparr>))"

definition fill_date :: "node \<Rightarrow> article \<Rightarrow> error + article" where
  "fill_date article_soup a =
     (case find_first (has_class ''field field-text field-name-date'') article_soup of
        None \<Rightarrow> Inr a
      | Some date_str \<Rightarrow>
          (case unify_date_format (get_text date_str) of
             Inl e \<Rightarrow> Inl e
           | Inr d \<Rightarrow> Inr (a\<lparr>date := Some d\<rparr>)))"

definition fill_topics :: "node \<Rightarrow> article \<Rightarrow> error + article" where
  "fill_topics article_soup a =
     (let ts = find_all (has_class ''tags'') article_soup in
      if ts \<noteq> [] then topic_loop ts a
      else Inr (a\<lparr>topics := topics a @ [''NOT FOUND'']\<rparr>))"

definition fill_authors :: "node \<Rightarrow> article \<Rightarrow> error + article" where
  "fill_authors article_soup a =
     (let a0 = a\<lparr>author := []\<rparr>;
          authors =
            find_all (has_class ''field field-text field-multiple person field-name-authors'')
              article_soup in
      if authors \<noteq> [] then author_loop authors a0
      else Inr (a0\<lparr>author := author a0 @ [''NOT FOUND'']\<rparr>))"

text \<open>The four steps of \<open>_fill_article_with_meta_information\<close>, in the order of the code.\<close>

definition fill_article_with_meta_information :: "node \<Rightarrow> article \<Rightarrow> error + article" where
  "fill_article_with_meta_information article_soup a =
     bind_err (fill_title article_soup a) (\<lambda>a1.
     bind_err (fill_date article_soup a1) (\<lambda>a2.
     bind_err (fill_topics article_soup a2) (\<lambda>a3.
       fill_authors article_soup a3)))"

definition parse :: "network \<Rightarrow> nat \<Rightarrow> html_parser \<Rightarrow> error + article" where
  "parse net k p =
     (case make_request net k (full_url p) of
        Inl e \<Rightarrow> Inl e
      | Inr r \<Rightarrow>
          if ok r
          then fill_article_with_meta_information (document r)
                 (fill_article_with_text (document r) (parsed p))
          else Inr (parsed p))"

section \<open>Example inputs\<close>

text \<open>A configuration document with the given seed list and article count.\<close>

definition config_doc :: "json \<Rightarrow> json \<Rightarrow> json" where
  "config_doc seeds n =
     JObj [(''seed_urls'', seeds),
           (''total_articles_to_find_and_parse'', n),
           (''headers'', JObj []),
           (''encoding'', JStr ''utf-8''),
           (''timeout'', JInt 5),
           (''should_verify_certificate'', JBool True),
           (''headless_mode'', JBool False)]"

definition good_seeds :: json where
  "good_seeds = JList [JStr ''https://www.comnews.ru/news'']"

text \<open>Pages: a document, the content region, a link.\<close>

definition page :: "node list \<Rightarrow> node" where
  "page kids = Tag ''[document]'' [] [] kids"

definition region :: "node list \<Rightarrow> node" where
  "region kids = Tag ''div'' [''region'', ''region-content''] [] kids"

definition anchor :: "string \<Rightarrow> node" where
  "anchor h = Tag ''a'' [] [(''href'', h)] [Text ''link'']"

definition one_link_page :: node where
  "one_link_page = page [region [anchor ''/content/a'']]"

definition no_link_page :: node where
  "no_link_page = page [region [Text ''nothing'']]"

text \<open>A network that answers every request alike.\<close>

definition always :: "bool \<Rightarrow> node \<Rightarrow> network" where
  "always b doc = (\<lambda>k u. Inr \<lparr>ok = b, document = doc\<rparr>)"

text \<open>The configuration built from \<open>config_doc good_seeds (JInt n)\<close>, and its crawler.\<close>

definition example_config :: "int \<Rightarrow> config" where
  "example_config n =
     \<lparr>seed_urls = [''https://www.comnews.ru/news''], num_articles = n, headers = [],
      encoding = ''utf-8'', timeout = 5, should_verify_certificate = True,
      headless_mode = False\<rparr>"

definition crawler0 :: "int \<Rightarrow> crawler" where
  "crawler0 n = Crawler_init (example_config n)"

text \<open>A region whose second link has no address, after a qualifying and after an
  unqualifying first link.\<close>

definition two_anchor_page :: node where
  "two_anchor_page = page [region [anchor ''/content/a'', Tag ''a'' [] [] [Text ''bare'']]]"

definition bare_anchor_page :: node where
  "bare_anchor_page = page [region [anchor ''/about'', Tag ''a'' [] [] [Text ''bare'']]]"

text \<open>
  The specification's wording, for comparison with the code. ``The fixed pattern
  day.month.year'': three fields separated by dots, a day of one or two characters
  (digits, or a space before a digit), a month of one or two digits, a year of four
  digits.
\<close>

definition day_month_year :: "string \<Rightarrow> bool" where
  "day_month_year s =
     (case split_by (\<lambda>c. c = CHR ''.'') s of
        [d, m, y] \<Rightarrow>
          length d \<in> {1, 2} \<and> list_all (\<lambda>c. is_digit c \<or> c = CHR '' '') d
          \<and> length m \<in> {1, 2} \<and> list_all is_digit m
          \<and> length y = 4 \<and> list_all is_digit y
      | _ \<Rightarrow> False)"

text \<open>
  ``The last whitespace-delimited token'': the text is cut at every whitespace
  character, and the pieces that are not empty are its tokens.
\<close>

definition is_space :: "char \<Rightarrow> bool" where
  "is_space c = (c \<in> set [CHR '' '', CHR 0x09, CHR 0x0A, CHR 0x0B, CHR 0x0C, CHR 0x0D])"

definition ws_tokens :: "string \<Rightarrow> string list" where
  "ws_tokens s = filter (\<lambda>w. w \<noteq> []) (split_by is_space s)"

text \<open>The text after the last space character; the whole text when it has no space.\<close>

definition after_last_space :: "string \<Rightarrow> string" where
  "after_last_space s = rev (takeWhile (\<lambda>c. c \<noteq> CHR '' '') (rev s))"

text \<open>Article pages and the parser of the first discovered address.\<close>

definition tag_box :: "string \<Rightarrow> node" where
  "tag_box t = Tag ''div'' [''tags''] [] [Tag ''a'' [] [(''href'', ''/tags'')] [Text t]]"

definition author_box :: "string \<Rightarrow> node" where
  "author_box name =
     Tag ''div'' [''field'', ''field-text'', ''field-multiple'', ''person'', ''field-name-authors'']
       [] [Tag ''span'' [] [] [Text name]]"

definition date_box :: "string \<Rightarrow> node" where
  "date_box d = Tag ''div'' [''field'', ''field-text'', ''field-name-date''] [] [Text d]"

definition heading :: "string \<Rightarrow> node" where
  "heading t = Tag ''h1'' [] [] [Text t]"

definition full_article_page :: node where
  "full_article_page =
     page [heading ''News'', date_box ''04.03.2024'', tag_box ''5G'', tag_box ''AI'',
           author_box ''Ivan Petrov'']"

definition plain_article_page :: node where
  "plain_article_page = page [heading ''News'', heading ''Other'']"

definition tab_author_page :: node where
  "tab_author_page = page [heading ''News'', author_box (''Ivan'' @ [CHR 0x09] @ ''Petrov'')]"

definition bad_date_page :: node where
  "bad_date_page = page [heading ''News'', date_box ''2024-03-04'']"

definition parser0 :: html_parser where
  "parser0 = HTMLParser_init ''https://www.comnews.ru//content/a'' 1 (example_config 2)"

section \<open>Configuration validation\<close>

lemmas check_defs =
  validate_config_content_def then_check_def check_seed_urls_def subscript_def
  check_num_articles_def check_headers_def check_encoding_def check_timeout_def
  check_verify_def

lemmas config_init_defs = Config_init_def extract_config_content_def bind_err_def

lemma re_match_seed_url_pattern:
  "re_match seed_url_pattern s \<longleftrightarrow> prefix ''http://'' s \<or> prefix ''https://'' s"
  unfolding seed_url_pattern_def
  by (auto simp: prefix_def split: list.splits)

lemma all_seed_urls_match_stops:
  "\<not> re_match seed_url_pattern s \<Longrightarrow>
   all_seed_urls_match (map JStr pre @ JStr s # rest) = Inr False"
  by (induction pre) (auto split: if_splits)

lemma Config_init_check_seed_urls:
  "check_seed_urls doc = Inl e \<Longrightarrow> Config_init doc = Inl e"
  by (simp add: Config_init_def validate_config_content_def then_check_def)

lemma validate_after_seed_urls:
  "check_seed_urls doc = Inr () \<Longrightarrow> check_num_articles doc = Inl e \<Longrightarrow>
   validate_config_content doc = Inl e"
  by (simp add: validate_config_content_def then_check_def)

lemma check_num_articles_cases:
  assumes "subscript doc ''total_articles_to_find_and_parse'' = Inr v"
  shows "check_num_articles doc =
     (if \<not> isinstance_int v \<or> int_value v \<le> 0 then Inl IncorrectNumberOfArticlesError
      else if int_value v = 1 \<or> 150 < int_value v then Inl NumberOfArticlesOutOfRangeError
      else Inr ())"
  using assms by (auto simp add: check_num_articles_def)

lemma check_seed_urls_good: "check_seed_urls (config_doc good_seeds n) = Inr ()"
  by (simp add: config_doc_def good_seeds_def check_seed_urls_def subscript_def
      re_match_seed_url_pattern)

lemma subscript_total:
  "subscript (config_doc seeds n) ''total_articles_to_find_and_parse'' = Inr n"
  by (simp add: config_doc_def subscript_def)

text \<open>
  Claim C2, as stated, fails on an empty seed list: \<^verbatim>\<open>all\<close> of no elements is true, so
  the seed rule raises nothing and the configuration is built.
\<close>

theorem empty_seed_list_accepted:
  "Config_init (config_doc (JList []) (JInt 5)) =
     Inr \<lparr>seed_urls = [], num_articles = 5, headers = [], encoding = ''utf-8'',
          timeout = 5, should_verify_certificate = True, headless_mode = False\<rparr>"
  by (simp add: config_doc_def check_defs config_init_defs)

text \<open>
  Claim C2, amended: when the \<^verbatim>\<open>seed_urls\<close> field of a configuration document is a list
  in which some string starts with neither \<^verbatim>\<open>http://\<close> nor \<^verbatim>\<open>https://\<close> (the
  strings the pattern matches), and every element before it is a string, construction
  of the configuration fails with \<open>IncorrectSeedURLError\<close>, so no configuration is
  produced.
\<close>

theorem bad_seed_url_rejected:
  assumes "subscript doc ''seed_urls'' = Inr (JList (map JStr pre @ JStr s # rest))"
    and "\<not> prefix ''http://'' s" and "\<not> prefix ''https://'' s"
  shows "Config_init doc = Inl IncorrectSeedURLError"
proof -
  from assms(2,3) have "\<not> re_match seed_url_pattern s"
    by (simp add: re_match_seed_url_pattern)
  then have "all_seed_urls_match (map JStr pre @ JStr s # rest) = Inr False"
    by (rule all_seed_urls_match_stops)
  with assms(1) have "check_seed_urls doc = Inl IncorrectSeedURLError"
    by (simp add: check_seed_urls_def)
  then show ?thesis by (rule Config_init_check_seed_urls)
qed

theorem bad_seed_url_rejected_witness:
  "Config_init (config_doc (JList [JStr ''https://www.comnews.ru/news'', JStr ''ftp://x'', JInt 3])
      (JInt 5)) = Inl IncorrectSeedURLError"
  by (rule bad_seed_url_rejected
        [of _ "[''https://www.comnews.ru/news'']" "''ftp://x''" "[JInt 3]"])
     (simp_all add: config_doc_def subscript_def)

text \<open>
  Claim C5, as stated, fails on the integer 0: the code raises the article-count type
  error for it, not the out-of-range error.
\<close>

theorem zero_articles_not_out_of_range:
  "validate_config_content (config_doc good_seeds (JInt 0)) = Inl IncorrectNumberOfArticlesError"
  by (simp add: config_doc_def good_seeds_def check_defs re_match_seed_url_pattern)

text \<open>
  Claim C5, amended: for a configuration document that passes the seed rule, if
  \<^verbatim>\<open>total_articles_to_find_and_parse\<close> is no instance of \<^verbatim>\<open>int\<close>, or is an integer
  that is at most 0, validation fails with \<open>IncorrectNumberOfArticlesError\<close>; if it is
  the integer 1 or an integer above 150, validation fails with
  \<open>NumberOfArticlesOutOfRangeError\<close>; if it is an integer in (1, 150], the rule on the
  article count passes.
\<close>

theorem num_articles_rule:
  assumes "check_seed_urls doc = Inr ()"
    and "subscript doc ''total_articles_to_find_and_parse'' = Inr v"
  shows "(\<not> isinstance_int v \<longrightarrow>
            validate_config_content doc = Inl IncorrectNumberOfArticlesError)
       \<and> (\<forall>i. v = JInt i \<longrightarrow>
            (i \<le> 0 \<longrightarrow> validate_config_content doc = Inl IncorrectNumberOfArticlesError)
          \<and> (i = 1 \<or> 150 < i \<longrightarrow>
               validate_config_content doc = Inl NumberOfArticlesOutOfRangeError)
          \<and> (1 < i \<and> i \<le> 150 \<longrightarrow> check_num_articles doc = Inr ()))"
  using validate_after_seed_urls [OF assms(1)] check_num_articles_cases [OF assms(2)]
  by auto

theorem num_articles_rule_witness:
  "validate_config_content (config_doc good_seeds (JStr ''5'')) = Inl IncorrectNumberOfArticlesError
   \<and> validate_config_content (config_doc good_seeds (JInt (- 3))) = Inl IncorrectNumberOfArticlesError
   \<and> validate_config_content (config_doc good_seeds (JInt 1)) = Inl NumberOfArticlesOutOfRangeError
   \<and> validate_config_content (config_doc good_seeds (JInt 151)) = Inl NumberOfArticlesOutOfRangeError
   \<and> check_num_articles (config_doc good_seeds (JInt 150)) = Inr ()"
  using num_articles_rule [OF check_seed_urls_good subscript_total, of "JStr ''5''"]
    num_articles_rule [OF check_seed_urls_good subscript_total, of "JInt (- 3)"]
    num_articles_rule [OF check_seed_urls_good subscript_total, of "JInt 1"]
    num_articles_rule [OF check_seed_urls_good subscript_total, of "JInt 151"]
    num_articles_rule [OF check_seed_urls_good subscript_total, of "JInt 150"]
  by simp

section \<open>Discovery\<close>

lemmas example_defs =
  region_def anchor_def page_def always_def example_config_def one_link_page_def
  no_link_page_def crawler0_def Crawler_init_def

lemmas crawler_defs =
  get_num_articles_def get_search_urls_def get_seed_urls_def make_request_def extract_url_def
  find_first_def find_all_def

lemma Config_init_example:
  "Config_init (config_doc good_seeds (JInt 2)) = Inr (example_config 2)"
  by (simp add: config_doc_def good_seeds_def check_defs config_init_defs example_config_def
      re_match_seed_url_pattern)

lemma scan_links_length:
  "scan_links ls c = Inr (u, c') \<Longrightarrow>
     length (urls c) \<le> length (urls c') \<and> length (urls c') \<le> Suc (length (urls c))"
  by (induction ls) (auto split: option.splits if_splits simp: Let_def)

lemma extract_url_length:
  "extract_url d c = Inr (u, c') \<Longrightarrow>
     length (urls c) \<le> length (urls c') \<and> length (urls c') \<le> Suc (length (urls c))"
  by (auto simp: extract_url_def split: option.splits dest: scan_links_length)

lemma visit_seeds_mono:
  "visit_seeds net n seeds (c, k) = Inr (c', k') \<Longrightarrow> length (urls c) \<le> length (urls c')"
proof (induction seeds arbitrary: c k)
  case Nil then show ?case by simp
next
  case (Cons s ss)
  show ?case
  proof (cases "make_request net k s")
    case (Inl e) with Cons.prems show ?thesis by simp
  next
    case (Inr r)
    show ?thesis
    proof (cases "ok r")
      case False
      with Cons.prems Inr have "visit_seeds net n ss (c, Suc k) = Inr (c', k')" by simp
      then show ?thesis by (rule Cons.IH)
    next
      case True
      show ?thesis
      proof (cases "extract_url (document r) c")
        case (Inl e) with Cons.prems Inr True show ?thesis by simp
      next
        case (Inr p)
        obtain u c1 where p: "p = (u, c1)" by (cases p)
        from Inr p have len: "length (urls c) \<le> length (urls c1)"
          using extract_url_length by blast
        show ?thesis
        proof (cases "n \<le> int (length (urls c1))")
          case True
          with Cons.prems \<open>make_request net k s = Inr r\<close> \<open>ok r\<close> Inr p len show ?thesis by simp
        next
          case False
          show ?thesis
          proof (cases "n \<le> int (Suc (length (urls c1)))")
            case True
            with False Cons.prems \<open>make_request net k s = Inr r\<close> \<open>ok r\<close> Inr p len show ?thesis
              by (auto simp: Let_def)
          next
            case F2: False
            with False Cons.prems \<open>make_request net k s = Inr r\<close> \<open>ok r\<close> Inr p
            have "visit_seeds net n ss (c1\<lparr>urls := urls c1 @ [u]\<rparr>, Suc k) = Inr (c', k')"
              by (auto simp: Let_def)
            from Cons.IH [OF this] len show ?thesis by simp
          qed
        qed
      qed
    qed
  qed
qed


lemma visit_seeds_bound:
  "int (length (urls c)) < n \<Longrightarrow> visit_seeds net n seeds (c, k) = Inr (c', k') \<Longrightarrow>
   int (length (urls c')) \<le> n"
proof (induction seeds arbitrary: c k)
  case Nil then show ?case by simp
next
  case (Cons s ss)
  show ?case
  proof (cases "make_request net k s")
    case (Inl e) with Cons.prems show ?thesis by simp
  next
    case (Inr r)
    show ?thesis
    proof (cases "ok r")
      case False
      with Cons.prems Inr have "visit_seeds net n ss (c, Suc k) = Inr (c', k')" by simp
      with Cons.prems(1) show ?thesis by (rule Cons.IH)
    next
      case True
      show ?thesis
      proof (cases "extract_url (document r) c")
        case (Inl e) with Cons.prems \<open>make_request net k s = Inr r\<close> True show ?thesis by simp
      next
        case (Inr p)
        obtain u c1 where p: "p = (u, c1)" by (cases p)
        from Inr p have len: "length (urls c1) \<le> Suc (length (urls c))"
          using extract_url_length by blast
        with Cons.prems(1) have le: "int (length (urls c1)) \<le> n" by simp
        show ?thesis
        proof (cases "n \<le> int (length (urls c1))")
          case True
          with Cons.prems \<open>make_request net k s = Inr r\<close> \<open>ok r\<close> Inr p le show ?thesis by simp
        next
          case False
          show ?thesis
          proof (cases "n \<le> int (Suc (length (urls c1)))")
            case True
            with False Cons.prems \<open>make_request net k s = Inr r\<close> \<open>ok r\<close> Inr p le show ?thesis
              by (auto simp: Let_def)
          next
            case F2: False
            with False Cons.prems \<open>make_request net k s = Inr r\<close> \<open>ok r\<close> Inr p
            have "visit_seeds net n ss (c1\<lparr>urls := urls c1 @ [u]\<rparr>, Suc k) = Inr (c', k')"
              by (auto simp: Let_def)
            moreover from F2 have "int (length (urls (c1\<lparr>urls := urls c1 @ [u]\<rparr>))) < n" by simp
            ultimately show ?thesis using Cons.IH by blast
          qed
        qed
      qed
    qed
  qed
qed

lemma discover_returns_enough_aux:
  assumes "discover net n seeds st = Some y"
  shows "\<forall>st'. y = Inr st' \<longrightarrow> n \<le> int (length (urls (fst st')))"
  by (rule discover.raw_induct
        [where P = "\<lambda>net n seeds st y. \<forall>st'. y = Inr st' \<longrightarrow> n \<le> int (length (urls (fst st')))",
         OF _ assms])
     (auto split: if_splits sum.splits)

lemma discover_returns_enough:
  "discover net n seeds st = Some (Inr st') \<Longrightarrow> n \<le> int (length (urls (fst st')))"
  using discover_returns_enough_aux by blast

lemma discover_bound_aux:
  assumes "discover net n seeds st = Some y"
  shows "\<forall>st'. y = Inr st' \<longrightarrow>
           int (length (urls (fst st'))) \<le> max n (int (length (urls (fst st))))"
proof (rule discover.raw_induct
        [where P = "\<lambda>net n seeds st y. \<forall>st'. y = Inr st' \<longrightarrow>
           int (length (urls (fst st'))) \<le> max n (int (length (urls (fst st))))",
         OF _ assms])
  fix d :: "network \<Rightarrow> int \<Rightarrow> string list \<Rightarrow> crawler \<times> nat \<Rightarrow> (error + (crawler \<times> nat)) option"
    and net n seeds st y
  assume IH: "\<And>net n seeds st y. d net n seeds st = Some y \<Longrightarrow>
      \<forall>st'. y = Inr st' \<longrightarrow>
           int (length (urls (fst st'))) \<le> max n (int (length (urls (fst st))))"
    and step: "(if int (length (urls (fst st))) < n
      then case visit_seeds net n seeds st of Inl e \<Rightarrow> Some (Inl e)
           | Inr st' \<Rightarrow> d net n seeds st'
      else Some (Inr st)) = Some y"
  show "\<forall>st'. y = Inr st' \<longrightarrow>
           int (length (urls (fst st'))) \<le> max n (int (length (urls (fst st))))"
  proof (cases "int (length (urls (fst st))) < n")
    case False
    with step show ?thesis by auto
  next
    case True
    obtain c k where st: "st = (c, k)" by (cases st)
    show ?thesis
    proof (cases "visit_seeds net n seeds (c, k)")
      case (Inl e)
      with step True st show ?thesis by auto
    next
      case (Inr q)
      obtain c1 k1 where q: "q = (c1, k1)" by (cases q)
      from True st Inr q have "int (length (urls c1)) \<le> n"
        using visit_seeds_bound [of c n net seeds k c1 k1] by simp
      moreover from step True st Inr q have "d net n seeds (c1, k1) = Some y" by simp
      from IH [OF this] have "\<forall>st'. y = Inr st' \<longrightarrow>
           int (length (urls (fst st'))) \<le> max n (int (length (urls c1)))" by simp
      ultimately show ?thesis by auto
    qed
  qed
qed

lemma discover_bound:
  "discover net n seeds (c, k) = Some (Inr (c', k')) \<Longrightarrow> int (length (urls c)) \<le> n \<Longrightarrow>
   int (length (urls c')) \<le> n"
  using discover_bound_aux [of net n seeds "(c, k)" "Inr (c', k')"] by auto

lemma visit_seeds_stagnant:
  "seeds = [] \<or> (\<forall>k u. \<exists>r. net k u = Inr r \<and> \<not> ok r) \<Longrightarrow>
   visit_seeds net n seeds (c, k) = Inr (c, k + length seeds)"
proof (induction seeds arbitrary: k)
  case Nil then show ?case by simp
next
  case (Cons s ss)
  then have all: "\<forall>k u. \<exists>r. net k u = Inr r \<and> \<not> ok r" by simp
  then obtain r where "net k s = Inr r" "\<not> ok r" by blast
  moreover from all have "visit_seeds net n ss (c, Suc k) = Inr (c, Suc k + length ss)"
    by (intro Cons.IH) simp
  ultimately show ?case by (simp add: make_request_def)
qed

lemma discover_diverges_aux:
  assumes "discover net n seeds st = Some y"
  shows "\<not> (int (length (urls (fst st))) < n \<and>
            (seeds = [] \<or> (\<forall>k u. \<exists>r. net k u = Inr r \<and> \<not> ok r)))"
proof (rule discover.raw_induct
        [where P = "\<lambda>net n seeds st y. \<not> (int (length (urls (fst st))) < n \<and>
            (seeds = [] \<or> (\<forall>k u. \<exists>r. net k u = Inr r \<and> \<not> ok r)))",
         OF _ assms])
  fix d :: "network \<Rightarrow> int \<Rightarrow> string list \<Rightarrow> crawler \<times> nat \<Rightarrow> (error + (crawler \<times> nat)) option"
    and net n seeds st y
  assume IH: "\<And>net n seeds st y. d net n seeds st = Some y \<Longrightarrow>
      \<not> (int (length (urls (fst st))) < n \<and>
            (seeds = [] \<or> (\<forall>k u. \<exists>r. net k u = Inr r \<and> \<not> ok r)))"
    and step: "(if int (length (urls (fst st))) < n
      then case visit_seeds net n seeds st of Inl e \<Rightarrow> Some (Inl e)
           | Inr st' \<Rightarrow> d net n seeds st'
      else Some (Inr st)) = Some y"
  show "\<not> (int (length (urls (fst st))) < n \<and>
            (seeds = [] \<or> (\<forall>k u. \<exists>r. net k u = Inr r \<and> \<not> ok r)))"
  proof
    assume A: "int (length (urls (fst st))) < n \<and>
            (seeds = [] \<or> (\<forall>k u. \<exists>r. net k u = Inr r \<and> \<not> ok r))"
    obtain c k where st: "st = (c, k)" by (cases st)
    from A have vs: "visit_seeds net n seeds (c, k) = Inr (c, k + length seeds)"
      by (intro visit_seeds_stagnant) simp
    with step A st have "d net n seeds (c, k + length seeds) = Some y" by simp
    from IH [OF this] A st show False by simp
  qed
qed

lemma discover_diverges:
  "int (length (urls c)) < n \<Longrightarrow>
   seeds = [] \<or> (\<forall>k u. \<exists>r. net k u = Inr r \<and> \<not> ok r) \<Longrightarrow>
   discover net n seeds (c, k) = None"
  using discover_diverges_aux [of net n seeds "(c, k)"] by (cases "discover net n seeds (c, k)") auto

lemma visit_seeds_progress:
  assumes "seeds \<noteq> []" and "\<forall>k u. \<exists>r. net k u = Inr r \<and> ok r"
    and "int (length (urls c)) < n"
  shows "(\<exists>e. visit_seeds net n seeds (c, k) = Inl e) \<or>
         (\<exists>c' k'. visit_seeds net n seeds (c, k) = Inr (c', k') \<and> length (urls c) < length (urls c'))"
proof -
  from assms(1) obtain s ss where seeds: "seeds = s # ss" by (cases seeds) auto
  from assms(2) obtain r where r: "net k s = Inr r" "ok r" by blast
  show ?thesis
  proof (cases "extract_url (document r) c")
    case (Inl e) with seeds r show ?thesis by (simp add: make_request_def)
  next
    case (Inr p)
    obtain u c1 where p: "p = (u, c1)" by (cases p)
    from Inr p have len: "length (urls c) \<le> length (urls c1)"
      using extract_url_length by blast
    show ?thesis
    proof (cases "n \<le> int (length (urls c1))")
      case True
      with seeds r Inr p assms(3) show ?thesis by (simp add: make_request_def)
    next
      case False
      show ?thesis
      proof (cases "n \<le> int (Suc (length (urls c1)))")
        case True
        with False seeds r Inr p len show ?thesis by (simp add: make_request_def Let_def)
      next
        case F2: False
        let ?c2 = "c1\<lparr>urls := urls c1 @ [u]\<rparr>"
        from F2 False seeds r Inr p
        have eq: "visit_seeds net n seeds (c, k) = visit_seeds net n ss (?c2, Suc k)"
          by (simp add: make_request_def Let_def)
        show ?thesis
        proof (cases "visit_seeds net n ss (?c2, Suc k)")
          case (Inl e) with eq show ?thesis by simp
        next
          case (Inr q)
          obtain c' k' where q: "q = (c', k')" by (cases q)
          from Inr q have "length (urls ?c2) \<le> length (urls c')"
            using visit_seeds_mono [of net n ss ?c2 "Suc k" c' k'] by simp
          with len eq Inr q show ?thesis by simp
        qed
      qed
    qed
  qed
qed

lemma discover_terminates:
  assumes "seeds \<noteq> []" and "\<forall>k u. \<exists>r. net k u = Inr r \<and> ok r"
  shows "\<exists>res. discover net n seeds (c, k) = Some res"
proof (induction "nat (n - int (length (urls c)))" arbitrary: c k rule: less_induct)
  case less
  show ?case
  proof (cases "int (length (urls c)) < n")
    case False
    then show ?thesis by (subst discover.simps) simp
  next
    case True
    from visit_seeds_progress [OF assms True, of k]
    show ?thesis
    proof (elim disjE exE conjE)
      fix e assume "visit_seeds net n seeds (c, k) = Inl e"
      with True show ?thesis by (subst discover.simps) simp
    next
      fix c' k' assume vs: "visit_seeds net n seeds (c, k) = Inr (c', k')"
        and lt: "length (urls c) < length (urls c')"
      from lt True have "nat (n - int (length (urls c'))) < nat (n - int (length (urls c)))" by simp
      from less [OF this] obtain res where "discover net n seeds (c', k') = Some res" by blast
      with vs True show ?thesis by (subst discover.simps) simp
    qed
  qed
qed


subsection \<open>Runs on the example pages\<close>

lemma discover_step:
  "int (length (urls (fst st))) < n \<Longrightarrow> visit_seeds net n seeds st = Inr st' \<Longrightarrow>
   discover net n seeds st = discover net n seeds st'"
  by (subst discover.simps) simp

lemma discover_stop:
  "\<not> int (length (urls (fst st))) < n \<Longrightarrow> discover net n seeds st = Some (Inr st)"
  by (subst discover.simps) simp

lemma crawler0_config:
  "get_num_articles (crawler_config (crawler0 n)) = n"
  "get_search_urls (crawler0 n) = [''https://www.comnews.ru/news'']"
  by (simp_all add: example_defs crawler_defs)

lemma visit_one_link:
  "visit_seeds (always True one_link_page) 2 [''https://www.comnews.ru/news''] (crawler0 2, 0) =
     Inr (crawler0 2\<lparr>urls := [Some ''https://www.comnews.ru//content/a'',
                               Some ''https://www.comnews.ru//content/a'']\<rparr>, 1)"
  by (simp add: example_defs crawler_defs Let_def)

lemma visit_no_link_first:
  "visit_seeds (always True no_link_page) 2 [''https://www.comnews.ru/news''] (crawler0 2, 0) =
     Inr (crawler0 2\<lparr>urls := [None]\<rparr>, 1)"
  by (simp add: example_defs crawler_defs Let_def)

lemma visit_no_link_again:
  "visit_seeds (always True no_link_page) 2 [''https://www.comnews.ru/news'']
     (crawler0 2\<lparr>urls := [None]\<rparr>, 1) = Inr (crawler0 2\<lparr>urls := [None, None]\<rparr>, 2)"
  by (simp add: example_defs crawler_defs Let_def)

lemma find_articles_no_links:
  "find_articles (always True no_link_page) (crawler0 2, 0) =
     Some (Inr (crawler0 2\<lparr>urls := [None, None]\<rparr>, 2))"
proof -
  have "discover (always True no_link_page) 2 [''https://www.comnews.ru/news''] (crawler0 2, 0) =
      discover (always True no_link_page) 2 [''https://www.comnews.ru/news'']
        (crawler0 2\<lparr>urls := [None]\<rparr>, 1)"
    by (rule discover_step [OF _ visit_no_link_first]) (simp add: example_defs)
  also have "\<dots> = discover (always True no_link_page) 2 [''https://www.comnews.ru/news'']
        (crawler0 2\<lparr>urls := [None, None]\<rparr>, 2)"
    by (rule discover_step [OF _ visit_no_link_again]) simp
  also have "\<dots> = Some (Inr (crawler0 2\<lparr>urls := [None, None]\<rparr>, 2))"
    by (rule discover_stop) simp
  finally show ?thesis by (simp add: find_articles_def crawler0_config)
qed

subsection \<open>The discovered list\<close>

text \<open>
  Claim C1 (the list \<open>urls\<close> after \<open>find_articles\<close> has no duplicates and is no longer
  than the target count) fails on the code. With a target of 2 and one seed page whose
  region holds the single link \<^verbatim>\<open>/content/a\<close>, \<open>_extract_url\<close> appends the
  address and \<open>find_articles\<close> appends the returned address once more: the run ends
  with the same address twice.
\<close>

theorem find_articles_appends_twice:
  "find_articles (always True one_link_page) (crawler0 2, 0) =
     Some (Inr (crawler0 2\<lparr>urls := [Some ''https://www.comnews.ru//content/a'',
                                     Some ''https://www.comnews.ru//content/a'']\<rparr>, 1))"
proof -
  have "discover (always True one_link_page) 2 [''https://www.comnews.ru/news''] (crawler0 2, 0) =
      discover (always True one_link_page) 2 [''https://www.comnews.ru/news'']
        (crawler0 2\<lparr>urls := [Some ''https://www.comnews.ru//content/a'',
                               Some ''https://www.comnews.ru//content/a'']\<rparr>, 1)"
    by (rule discover_step [OF _ visit_one_link]) (simp add: example_defs)
  also have "\<dots> = Some (Inr (crawler0 2\<lparr>urls := [Some ''https://www.comnews.ru//content/a'',
                               Some ''https://www.comnews.ru//content/a'']\<rparr>, 1))"
    by (rule discover_stop) simp
  finally show ?thesis by (simp add: find_articles_def crawler0_config)
qed

text \<open>
  The other half of the invariant holds: a run that starts with at most the target
  number of addresses ends with at most that number.
\<close>

theorem find_articles_length_bound:
  assumes "find_articles net (c, k) = Some (Inr (c', k'))"
    and "int (length (urls c)) \<le> get_num_articles (crawler_config c)"
  shows "int (length (urls c')) \<le> get_num_articles (crawler_config c)"
  using assms discover_bound unfolding find_articles_def by simp

theorem find_articles_length_bound_witness:
  "int (length (urls (crawler0 2\<lparr>urls := [None, None]\<rparr>)))
     \<le> get_num_articles (crawler_config (crawler0 2))"
  by (rule find_articles_length_bound [OF find_articles_no_links])
     (simp add: example_defs crawler_defs)

text \<open>
  Claim C4 (a seed page without a qualifying new link leaves the list unchanged, no
  placeholder is appended) fails on the code. \<open>_extract_url\<close> returns \<^verbatim>\<open>None\<close> for
  such a page, and \<open>find_articles\<close> appends what it returned.
\<close>

theorem placeholder_appended:
  "visit_seeds (always True no_link_page) 2 [''https://www.comnews.ru/news''] (crawler0 2, 0) =
     Inr (crawler0 2\<lparr>urls := [None]\<rparr>, 1)"
  by (simp add: example_defs crawler_defs Let_def)

subsection \<open>Termination\<close>

text \<open>
  Claim C3 (when every fetch succeeds, no seed page holds a qualifying new link and the
  list is shorter than the target, the loop repeats the pass and never ends) fails on
  the code. With a target of 2 and one seed page whose region holds no link, each pass
  appends the \<^verbatim>\<open>None\<close> that \<open>_extract_url\<close> returned, and the run returns
  after two passes with a list of two placeholders.
\<close>

theorem stagnant_run_returns:
  "find_articles (always True no_link_page) (crawler0 2, 0) =
     Some (Inr (crawler0 2\<lparr>urls := [None, None]\<rparr>, 2))"
  by (rule find_articles_no_links)

text \<open>
  The loop itself has no exit for a pass without progress: \<open>find_articles\<close> returns
  only with a list that has reached the target count, and when the list is shorter than
  the target and the passes cannot change it, because the seed list is empty or every
  fetch is unsuccessful, \<open>find_articles\<close> never returns.
\<close>

theorem no_stagnation_exit:
  "(\<forall>c' k'. find_articles net (c, k) = Some (Inr (c', k')) \<longrightarrow>
        get_num_articles (crawler_config c) \<le> int (length (urls c')))
   \<and> (int (length (urls c)) < get_num_articles (crawler_config c)
        \<and> (get_search_urls c = [] \<or> (\<forall>j u. \<exists>r. net j u = Inr r \<and> \<not> ok r))
      \<longrightarrow> find_articles net (c, k) = None)"
  using discover_returns_enough
          [of net "get_num_articles (crawler_config c)" "get_search_urls c" "(c, k)"]
    discover_diverges [of c "get_num_articles (crawler_config c)" "get_search_urls c" net k]
  by (auto simp: find_articles_def)

theorem no_stagnation_exit_witness:
  "get_num_articles (crawler_config (crawler0 2))
     \<le> int (length (urls (crawler0 2\<lparr>urls := [None, None]\<rparr>)))
   \<and> find_articles (always False no_link_page) (crawler0 2, 0) = None"
proof -
  have "int (length (urls (crawler0 2))) < get_num_articles (crawler_config (crawler0 2))"
    by (simp add: example_defs crawler_defs)
  moreover have "\<forall>j u. \<exists>r. always False no_link_page j u = Inr r \<and> \<not> ok r"
    by (simp add: always_def)
  ultimately have "find_articles (always False no_link_page) (crawler0 2, 0) = None"
    using no_stagnation_exit [of "always False no_link_page" "crawler0 2" 0] by blast
  moreover have "get_num_articles (crawler_config (crawler0 2))
     \<le> int (length (urls (crawler0 2\<lparr>urls := [None, None]\<rparr>)))"
    using no_stagnation_exit [of "always True no_link_page" "crawler0 2" 0]
      find_articles_no_links by blast
  ultimately show ?thesis by simp
qed

text \<open>
  When every fetch succeeds and there is a seed, each pass lengthens the list, so the
  run ends: with the list, or with the exception of a page that has no region.
\<close>

lemma find_articles_terminates:
  assumes "get_search_urls c \<noteq> []" and "\<forall>j u. \<exists>r. net j u = Inr r \<and> ok r"
  shows "\<exists>res. find_articles net (c, k) = Some res"
  using discover_terminates [OF assms] by (simp add: find_articles_def)

subsection \<open>Exceptions of \<open>_extract_url\<close>\<close>

lemma scan_links_missing_href:
  assumes "get_attr l ''href'' = None"
    and "\<forall>p\<in>set pre. \<exists>h. get_attr p ''href'' = Some h \<and>
           (prefix ''/content/'' h \<longrightarrow> Some (url_pattern c @ h) \<in> set (urls c))"
  shows "scan_links (pre @ l # rest) c = Inl AttributeError"
  using assms by (induction pre) (auto simp: Let_def)

text \<open>
  Claim C10, as stated, fails on a region whose link without an address comes after a
  qualifying new link: the function returns at the first link and never reads the second.
\<close>

theorem href_less_anchor_not_reached:
  "extract_url two_anchor_page (crawler0 2) =
     Inr (Some ''https://www.comnews.ru//content/a'',
          crawler0 2\<lparr>urls := [Some ''https://www.comnews.ru//content/a'']\<rparr>)"
  by (simp add: two_anchor_page_def example_defs crawler_defs Let_def)

text \<open>
  Claim C10, amended: \<open>_extract_url\<close> raises (an \<open>AttributeError\<close>) on every page
  that lacks the \<^verbatim>\<open>div\<close> of class \<^verbatim>\<open>region region-content\<close>, and on every page
  whose region holds a link without \<^verbatim>\<open>href\<close> such that no link before it, in
  document order, has an address that starts with \<^verbatim>\<open>/content/\<close> and is not yet in
  the list.
\<close>

theorem extract_url_raises:
  "(find_first (\<lambda>n. has_name ''div'' n \<and> has_class ''region region-content'' n) soup = None
      \<longrightarrow> extract_url soup c = Inl AttributeError)
   \<and> (\<forall>links pre l rest.
         find_first (\<lambda>n. has_name ''div'' n \<and> has_class ''region region-content'' n) soup
           = Some links
         \<and> find_all (has_name ''a'') links = pre @ l # rest
         \<and> get_attr l ''href'' = None
         \<and> (\<forall>p\<in>set pre. \<exists>h. get_attr p ''href'' = Some h \<and>
               (prefix ''/content/'' h \<longrightarrow> Some (url_pattern c @ h) \<in> set (urls c)))
      \<longrightarrow> extract_url soup c = Inl AttributeError)"
  by (auto simp: extract_url_def scan_links_missing_href)

theorem extract_url_raises_witness:
  "extract_url (page [Text ''no region'']) (crawler0 2) = Inl AttributeError
   \<and> extract_url bare_anchor_page (crawler0 2) = Inl AttributeError"
proof -
  have "find_first (\<lambda>n. has_name ''div'' n \<and> has_class ''region region-content'' n)
          (page [Text ''no region'']) = None"
    by (simp add: example_defs crawler_defs)
  then have 1: "extract_url (page [Text ''no region'']) (crawler0 2) = Inl AttributeError"
    using extract_url_raises [of "page [Text ''no region'']" "crawler0 2"] by blast
  have "find_first (\<lambda>n. has_name ''div'' n \<and> has_class ''region region-content'' n)
          bare_anchor_page = Some (region [anchor ''/about'', Tag ''a'' [] [] [Text ''bare'']])"
    and "find_all (has_name ''a'') (region [anchor ''/about'', Tag ''a'' [] [] [Text ''bare'']])
          = [anchor ''/about''] @ Tag ''a'' [] [] [Text ''bare''] # []"
    and "get_attr (Tag ''a'' [] [] [Text ''bare'']) ''href'' = None"
    and "\<forall>p\<in>set [anchor ''/about'']. \<exists>h. get_attr p ''href'' = Some h \<and>
           (prefix ''/content/'' h \<longrightarrow>
              Some (url_pattern (crawler0 2) @ h) \<in> set (urls (crawler0 2)))"
    by (simp_all add: bare_anchor_page_def example_defs crawler_defs)
  then have 2: "extract_url bare_anchor_page (crawler0 2) = Inl AttributeError"
    using extract_url_raises [of bare_anchor_page "crawler0 2"] by blast
  from 1 2 show ?thesis by simp
qed

section \<open>Dates and name splitting\<close>

lemmas date_defs = unify_date_format_def match_dmY_def day_alts_def month_alts_def year_match_def
  after_dot_def is_digit_def digit_val_def days_in_month_def is_leap_def

lemma split_by_nonempty: "split_by p s \<noteq> []"
  by (induction s) (auto split: list.splits)

lemma split_by_none: "\<forall>c\<in>set w. \<not> p c \<Longrightarrow> split_by p w = [w]"
  by (induction w) auto

lemma split_by_field:
  "\<forall>c\<in>set w. \<not> p c \<Longrightarrow> p x \<Longrightarrow> split_by p (w @ x # t) = w # split_by p t"
  by (induction w) auto

lemma first_some_Some:
  "first_some f xs = Some y \<Longrightarrow> \<exists>x\<in>set xs. f x = Some y"
  by (induction xs) (auto split: option.splits)

lemma after_dot_Some: "after_dot s = Some r \<Longrightarrow> s = CHR ''.'' # r"
  by (auto simp: after_dot_def split: list.splits if_splits)

lemma day_alts_shape:
  "(v, r) \<in> set (day_alts s) \<Longrightarrow>
   \<exists>w. s = w @ r \<and> length w \<in> {1, 2} \<and> list_all (\<lambda>c. is_digit c \<or> c = CHR '' '') w"
  unfolding day_alts_def
  by (cases s; cases "tl s") (auto simp: is_digit_def split: if_splits)

lemma month_alts_shape:
  "(v, r) \<in> set (month_alts s) \<Longrightarrow>
   \<exists>w. s = w @ r \<and> length w \<in> {1, 2} \<and> list_all is_digit w"
  unfolding month_alts_def
  by (cases s; cases "tl s") (auto simp: is_digit_def split: if_splits)

lemma year_match_shape:
  "year_match s = Some (y, r) \<Longrightarrow> \<exists>w. s = w @ r \<and> length w = 4 \<and> list_all is_digit w"
  unfolding year_match_def
  by (auto split: list.splits if_splits)

lemma match_dmY_shape:
  assumes "match_dmY s = Some (d, m, y, rest)"
  shows "\<exists>wd wm wy. s = wd @ CHR ''.'' # wm @ CHR ''.'' # wy @ rest
           \<and> length wd \<in> {1, 2} \<and> list_all (\<lambda>c. is_digit c \<or> c = CHR '' '') wd
           \<and> length wm \<in> {1, 2} \<and> list_all is_digit wm
           \<and> length wy = 4 \<and> list_all is_digit wy"
proof -
  from assms obtain d1 r1 where a: "(d1, r1) \<in> set (day_alts s)"
    and b: "(case after_dot r1 of None \<Rightarrow> None
       | Some r2 \<Rightarrow>
           first_some (\<lambda>(m, r3).
             case after_dot r3 of
               None \<Rightarrow> None
             | Some r4 \<Rightarrow>
                 (case year_match r4 of
                    None \<Rightarrow> None
                  | Some (y, rest) \<Rightarrow> Some (d1, m, y, rest)))
             (month_alts r2)) = Some (d, m, y, rest)"
    unfolding match_dmY_def by (fastforce dest!: first_some_Some)
  from b obtain r2 where r2: "after_dot r1 = Some r2"
    and c: "first_some (\<lambda>(m, r3).
             case after_dot r3 of
               None \<Rightarrow> None
             | Some r4 \<Rightarrow>
                 (case year_match r4 of
                    None \<Rightarrow> None
                  | Some (y, rest) \<Rightarrow> Some (d1, m, y, rest)))
             (month_alts r2) = Some (d, m, y, rest)"
    by (auto split: option.splits)
  from c obtain m1 r3 where m: "(m1, r3) \<in> set (month_alts r2)"
    and e: "(case after_dot r3 of
               None \<Rightarrow> None
             | Some r4 \<Rightarrow>
                 (case year_match r4 of
                    None \<Rightarrow> None
                  | Some (y, rest) \<Rightarrow> Some (d1, m1, y, rest))) = Some (d, m, y, rest)"
    by (fastforce dest!: first_some_Some)
  from e obtain r4 where r4: "after_dot r3 = Some r4" and y: "year_match r4 = Some (y, rest)"
    by (auto split: option.splits)
  from day_alts_shape [OF a] obtain wd where wd: "s = wd @ r1" "length wd \<in> {1, 2}"
    "list_all (\<lambda>c. is_digit c \<or> c = CHR '' '') wd" by blast
  from month_alts_shape [OF m] obtain wm where wm: "r2 = wm @ r3" "length wm \<in> {1, 2}"
    "list_all is_digit wm" by blast
  from year_match_shape [OF y] obtain wy where wy: "r4 = wy @ rest" "length wy = 4"
    "list_all is_digit wy" by blast
  from wd wm wy after_dot_Some [OF r2] after_dot_Some [OF r4] show ?thesis by auto
qed

lemma is_digit_not_dot: "is_digit c \<Longrightarrow> c \<noteq> CHR ''.''"
  by (auto simp: is_digit_def)

lemma unify_date_format_shape:
  assumes "unify_date_format s = Inr dt"
  shows "day_month_year s"
proof -
  from assms obtain d m y where "match_dmY s = Some (d, m, y, [])"
    unfolding unify_date_format_def by (auto split: option.splits if_splits)
  from match_dmY_shape [OF this] obtain wd wm wy where
    s: "s = wd @ CHR ''.'' # wm @ CHR ''.'' # wy"
    and sh: "length wd \<in> {1, 2}" "list_all (\<lambda>c. is_digit c \<or> c = CHR '' '') wd"
      "length wm \<in> {1, 2}" "list_all is_digit wm" "length wy = 4" "list_all is_digit wy"
    by auto
  from sh have nd: "\<forall>c\<in>set wd. \<not> c = CHR ''.''" "\<forall>c\<in>set wm. \<not> c = CHR ''.''"
    "\<forall>c\<in>set wy. \<not> c = CHR ''.''"
    by (auto simp: list_all_iff dest: is_digit_not_dot)
  have "split_by (\<lambda>c. c = CHR ''.'') s = [wd, wm, wy]"
    unfolding s using nd by (simp add: split_by_field split_by_none)
  with sh show ?thesis by (simp add: day_month_year_def)
qed

lemma unify_date_format_error: "unify_date_format s = Inl e \<Longrightarrow> e = ValueError"
  by (auto simp: unify_date_format_def split: option.splits if_splits)

lemma split_by_two:
  "p x \<Longrightarrow> \<exists>a b r. split_by p (pre @ x # w) = a # b # r"
proof (induction pre)
  case Nil
  then show ?case using split_by_nonempty [of p w] by (cases "split_by p w") auto
next
  case (Cons c pre)
  then obtain a b r where "split_by p (pre @ x # w) = a # b # r" by blast
  then show ?case by auto
qed

lemma last_split_by_after:
  "p x \<Longrightarrow> last (split_by p (pre @ x # w)) = last (split_by p w)"
proof (induction pre)
  case Nil
  then show ?case by (simp add: split_by_nonempty)
next
  case (Cons c pre)
  from split_by_two [of p x pre w] Cons.prems
  obtain a b r where "split_by p (pre @ x # w) = a # b # r" by blast
  with Cons show ?case by auto
qed

lemma last_split_by: "last (split_by p s) = rev (takeWhile (\<lambda>c. \<not> p c) (rev s))"
proof -
  let ?w = "rev (takeWhile (\<lambda>c. \<not> p c) (rev s))"
  have w: "\<forall>c\<in>set ?w. \<not> p c" by (auto dest: set_takeWhileD)
  have s: "s = rev (dropWhile (\<lambda>c. \<not> p c) (rev s)) @ ?w"
    by (metis rev_append rev_rev_ident takeWhile_dropWhile_id)
  show ?thesis
  proof (cases "dropWhile (\<lambda>c. \<not> p c) (rev s)")
    case Nil
    with s have "s = ?w" by simp
    with split_by_none [OF w] show ?thesis by simp
  next
    case (Cons x t)
    then have "p x" using hd_dropWhile [of "\<lambda>c. \<not> p c" "rev s"] by auto
    from s Cons have "s = rev t @ x # ?w" by simp
    then have "last (split_by p s) = last (split_by p (rev t @ x # ?w))" by simp
    also have "\<dots> = last (split_by p ?w)" using \<open>p x\<close> last_split_by_after [of p x "rev t" ?w] by simp
    also have "\<dots> = ?w" using split_by_none [OF w] by simp
    finally show ?thesis .
  qed
qed

section \<open>Extraction\<close>

lemmas page_defs = page_def heading_def date_box_def author_box_def tag_box_def
  full_article_page_def plain_article_page_def tab_author_page_def bad_date_page_def
  always_def

lemmas parser_defs = parser0_def HTMLParser_init_def Article_def parse_def make_request_def
  fill_article_with_meta_information_def fill_article_with_text_def fill_title_def fill_date_def
  fill_topics_def fill_authors_def bind_err_def find_first_def find_all_def split_space_def

lemma parse_full: "parse (always True full_article_page) 0 parser0 =
   Inr \<lparr>url = ''https://www.comnews.ru//content/a'', article_id = 1, title = ''News'',
     date = Some \<lparr>year = 2024, month = 3, day = 4, hour = 0, minute = 0, second = 0\<rparr>,
     author = [''Petrov''], topics = [''5G'', ''AI''], body_text = []\<rparr>"
  by (simp add: page_defs parser_defs date_defs Let_def)

lemma parse_plain: "parse (always True plain_article_page) 0 parser0 =
   Inr \<lparr>url = ''https://www.comnews.ru//content/a'', article_id = 1, title = ''News'',
     date = None, author = [''NOT FOUND''], topics = [''NOT FOUND''], body_text = []\<rparr>"
  by (simp add: page_defs parser_defs date_defs Let_def)

lemma topic_loop_result:
  "topic_loop ts a = Inr a' \<Longrightarrow>
     (\<exists>ls. map (find_first (has_name ''a'')) ts = map Some ls
           \<and> topics a' = topics a @ map get_text ls)
     \<and> title a' = title a \<and> author a' = author a"
proof (induction ts arbitrary: a)
  case Nil then show ?case by simp
next
  case (Cons t ts)
  from Cons.prems obtain l where l: "find_first (has_name ''a'') t = Some l"
    and r: "topic_loop ts (a\<lparr>topics := topics a @ [get_text l]\<rparr>) = Inr a'"
    by (auto split: option.splits)
  from Cons.IH [OF r] obtain ls where
    "map (find_first (has_name ''a'')) ts = map Some ls"
    "topics a' = topics a @ [get_text l] @ map get_text ls"
    "title a' = title a" "author a' = author a" by auto
  with l have "map (find_first (has_name ''a'')) (t # ts) = map Some (l # ls)
     \<and> topics a' = topics a @ map get_text (l # ls)" by simp
  with \<open>title a' = title a\<close> \<open>author a' = author a\<close> show ?case by blast
qed

lemma author_loop_result:
  "author_loop aus a = Inr a' \<Longrightarrow>
     (\<exists>sps. map (find_first (has_name ''span'')) aus = map Some sps
           \<and> author a' = author a @ map (\<lambda>sp. last (split_space (get_text sp))) sps)
     \<and> title a' = title a \<and> topics a' = topics a"
proof (induction aus arbitrary: a)
  case Nil then show ?case by simp
next
  case (Cons t ts)
  from Cons.prems obtain l where l: "find_first (has_name ''span'') t = Some l"
    and r: "author_loop ts (a\<lparr>author := author a @ [last (split_space (get_text l))]\<rparr>) = Inr a'"
    by (auto split: option.splits)
  from Cons.IH [OF r] obtain ls where
    "map (find_first (has_name ''span'')) ts = map Some ls"
    "author a' = author a @ [last (split_space (get_text l))]
        @ map (\<lambda>sp. last (split_space (get_text sp))) ls"
    "title a' = title a" "topics a' = topics a" by auto
  with l have "map (find_first (has_name ''span'')) (t # ts) = map Some (l # ls)
     \<and> author a' = author a @ map (\<lambda>sp. last (split_space (get_text sp))) (l # ls)" by simp
  with \<open>title a' = title a\<close> \<open>topics a' = topics a\<close> show ?case by blast
qed

lemma meta_steps:
  "fill_article_with_meta_information soup a = Inr a' \<Longrightarrow>
   \<exists>a1 a2 a3. fill_title soup a = Inr a1 \<and> fill_date soup a1 = Inr a2
      \<and> fill_topics soup a2 = Inr a3 \<and> fill_authors soup a3 = Inr a'"
  by (auto simp: fill_article_with_meta_information_def bind_err_def split: sum.splits)

lemma fill_title_result:
  "fill_title soup a = Inr a1 \<Longrightarrow>
   \<exists>h. find_first (has_name ''h1'') soup = Some h \<and> title a1 = get_text h \<and> topics a1 = topics a"
  by (auto simp: fill_title_def split: option.splits)

lemma fill_date_result:
  "fill_date soup a = Inr a1 \<Longrightarrow> title a1 = title a \<and> topics a1 = topics a"
  by (auto simp: fill_date_def split: option.splits sum.splits)

lemma fill_topics_result:
  "fill_topics soup a = Inr a1 \<Longrightarrow>
   title a1 = title a \<and>
   (if find_all (has_class ''tags'') soup = [] then topics a1 = topics a @ [''NOT FOUND'']
    else \<exists>ls. map (find_first (has_name ''a'')) (find_all (has_class ''tags'') soup) = map Some ls
           \<and> topics a1 = topics a @ map get_text ls)"
  by (auto simp: fill_topics_def Let_def split: if_splits dest!: topic_loop_result)

lemma fill_authors_result:
  "fill_authors soup a = Inr a1 \<Longrightarrow>
   title a1 = title a \<and> topics a1 = topics a \<and>
   (if find_all (has_class ''field field-text field-multiple person field-name-authors'') soup = []
    then author a1 = [''NOT FOUND'']
    else \<exists>sps. map (find_first (has_name ''span''))
            (find_all (has_class ''field field-text field-multiple person field-name-authors'') soup)
              = map Some sps
           \<and> author a1 = map (\<lambda>sp. last (split_space (get_text sp))) sps)"
  by (auto simp: fill_authors_def Let_def split: if_splits dest!: author_loop_result)



lemma meta_date_error:
  "fill_title soup a = Inr a1 \<Longrightarrow> fill_date soup a1 = Inl e \<Longrightarrow>
   fill_article_with_meta_information soup a = Inl e"
  by (simp add: fill_article_with_meta_information_def bind_err_def)

lemma parse_no_heading:
  "parse (always True (page [Text ''no heading''])) 0 parser0 = Inl AttributeError"
  by (simp add: page_defs parser_defs)

lemma parse_bad_date: "parse (always True bad_date_page) 0 parser0 = Inl ValueError"
  by (simp add: page_defs parser_defs date_defs)

lemma request_always: "make_request (always b d) k u = Inr \<lparr>ok = b, document = d\<rparr>"
  by (simp add: make_request_def always_def)



text \<open>
  Claim C8: when the fetch of the article address returns an unsuccessful response,
  \<open>parse\<close> returns, without raising, the article as it was constructed: the address
  and the number, and every other field at its default.
\<close>

theorem failed_fetch_gives_fresh_article:
  assumes "make_request net k u = Inr r" and "\<not> ok r"
  shows "parse net k (HTMLParser_init u i cfg) =
     Inr \<lparr>url = u, article_id = i, title = [], date = None, author = [], topics = [],
          body_text = []\<rparr>"
  using assms by (simp add: parse_def HTMLParser_init_def Article_def)

theorem failed_fetch_gives_fresh_article_witness:
  "parse (always False full_article_page) 0 parser0 =
     Inr \<lparr>url = ''https://www.comnews.ru//content/a'', article_id = 1, title = [],
          date = None, author = [], topics = [], body_text = []\<rparr>"
  unfolding parser0_def
  by (rule failed_fetch_gives_fresh_article [OF request_always]) simp

text \<open>
  Claim C6: \<open>unify_date_format\<close> turns \<^verbatim>\<open>04.03.2024\<close> into the date with year 2024,
  month 3 and day 4; it fails with a \<open>ValueError\<close> on \<^verbatim>\<open>2024-03-04\<close> and on every
  string that does not have the form day.month.year; and the failure leaves \<open>parse\<close>
  as it is, whenever the page has a heading and a date label with such a text.
\<close>

theorem date_parsing:
  "unify_date_format ''04.03.2024'' =
     Inr \<lparr>year = 2024, month = 3, day = 4, hour = 0, minute = 0, second = 0\<rparr>
   \<and> unify_date_format ''2024-03-04'' = Inl ValueError
   \<and> (\<forall>s. \<not> day_month_year s \<longrightarrow> unify_date_format s = Inl ValueError)
   \<and> (\<forall>net k p r h d e.
         make_request net k (full_url p) = Inr r \<and> ok r
         \<and> find_first (has_name ''h1'') (document r) = Some h
         \<and> find_first (has_class ''field field-text field-name-date'') (document r) = Some d
         \<and> unify_date_format (get_text d) = Inl e
       \<longrightarrow> parse net k p = Inl e)"
proof (intro conjI allI impI)
  show "unify_date_format ''04.03.2024'' =
     Inr \<lparr>year = 2024, month = 3, day = 4, hour = 0, minute = 0, second = 0\<rparr>"
    by (simp add: date_defs)
  show "unify_date_format ''2024-03-04'' = Inl ValueError"
    by (simp add: date_defs)
next
  fix s assume "\<not> day_month_year s"
  then show "unify_date_format s = Inl ValueError"
    using unify_date_format_shape [of s] unify_date_format_error [of s]
    by (cases "unify_date_format s") auto
next
  fix net k and p :: html_parser and r h d e
  assume A: "make_request net k (full_url p) = Inr r \<and> ok r
         \<and> find_first (has_name ''h1'') (document r) = Some h
         \<and> find_first (has_class ''field field-text field-name-date'') (document r) = Some d
         \<and> unify_date_format (get_text d) = Inl e"
  let ?a0 = "fill_article_with_text (document r) (parsed p)"
  from A have t: "fill_title (document r) ?a0 = Inr (?a0\<lparr>title := get_text h\<rparr>)"
    by (simp add: fill_title_def)
  from A have "fill_date (document r) (?a0\<lparr>title := get_text h\<rparr>) = Inl e"
    by (simp add: fill_date_def)
  from meta_date_error [OF t this] A show "parse net k p = Inl e"
    by (simp add: parse_def)
qed

theorem date_parsing_witness:
  "unify_date_format ''March 4'' = Inl ValueError
   \<and> parse (always True bad_date_page) 0 parser0 = Inl ValueError"
proof -
  have "\<not> day_month_year ''March 4''" by (simp add: day_month_year_def)
  then have 1: "unify_date_format ''March 4'' = Inl ValueError"
    using date_parsing by blast
  have "make_request (always True bad_date_page) 0 (full_url parser0)
          = Inr \<lparr>ok = True, document = bad_date_page\<rparr>
        \<and> ok \<lparr>ok = True, document = bad_date_page\<rparr>
        \<and> find_first (has_name ''h1'') (document \<lparr>ok = True, document = bad_date_page\<rparr>)
            = Some (heading ''News'')
        \<and> find_first (has_class ''field field-text field-name-date'')
              (document \<lparr>ok = True, document = bad_date_page\<rparr>) = Some (date_box ''2024-03-04'')
        \<and> unify_date_format (get_text (date_box ''2024-03-04'')) = Inl ValueError"
    by (simp add: make_request_def page_defs find_first_def find_all_def date_defs)
  then have 2: "parse (always True bad_date_page) 0 parser0 = Inl ValueError"
    using date_parsing by blast
  from 1 2 show ?thesis by (rule conjI)
qed

text \<open>
  Claim C9, as stated, fails on an author name whose parts are separated by a tab: the
  code splits at space characters only, so the entry is the whole name, while the last
  whitespace-delimited token of the name is the surname.
\<close>

theorem tab_separated_author_kept_whole:
  "parse (always True tab_author_page) 0 parser0 =
     Inr \<lparr>url = ''https://www.comnews.ru//content/a'', article_id = 1, title = ''News'',
          date = None, author = [''Ivan'' @ [CHR 0x09] @ ''Petrov''],
          topics = [''NOT FOUND''], body_text = []\<rparr>
   \<and> last (ws_tokens (''Ivan'' @ [CHR 0x09] @ ''Petrov'')) = ''Petrov''"
  by (simp add: page_defs parser_defs Let_def ws_tokens_def is_space_def)

text \<open>
  Claim C9, amended: for a successfully fetched page for which \<open>parse\<close> returns a
  record, the topics are exactly \<^verbatim>\<open>["NOT FOUND"]\<close> when the page has no element of
  class \<^verbatim>\<open>tags\<close>, and otherwise the texts of the first links of these elements, one
  entry for each element, in document order; the authors are exactly
  \<^verbatim>\<open>["NOT FOUND"]\<close> when the page has no author container, and otherwise, for each
  container in document order, the text after the last space character of the text of
  the container's first \<^verbatim>\<open>span\<close>.
\<close>

theorem topics_and_authors:
  assumes "make_request net k u = Inr r" and "ok r"
    and "parse net k (HTMLParser_init u i cfg) = Inr a"
  shows "(if find_all (has_class ''tags'') (document r) = [] then topics a = [''NOT FOUND'']
          else \<exists>ls. map (find_first (has_name ''a'')) (find_all (has_class ''tags'') (document r))
                       = map Some ls
                 \<and> topics a = map get_text ls)
    \<and> (if find_all (has_class ''field field-text field-multiple person field-name-authors'')
             (document r) = []
        then author a = [''NOT FOUND'']
        else \<exists>sps. map (find_first (has_name ''span''))
              (find_all (has_class ''field field-text field-multiple person field-name-authors'')
                 (document r)) = map Some sps
           \<and> author a = map (\<lambda>sp. after_last_space (get_text sp)) sps)"
proof -
  let ?a0 = "fill_article_with_text (document r) (Article u i)"
  have t0: "topics ?a0 = []" by (simp add: fill_article_with_text_def Article_def)
  from assms have "fill_article_with_meta_information (document r) ?a0 = Inr a"
    by (simp add: parse_def HTMLParser_init_def)
  from meta_steps [OF this] obtain a1 a2 a3 where
    s: "fill_title (document r) ?a0 = Inr a1"
      "fill_date (document r) a1 = Inr a2" "fill_topics (document r) a2 = Inr a3"
      "fill_authors (document r) a3 = Inr a" by blast
  from fill_title_result [OF s(1)] fill_date_result [OF s(2)] t0 have "topics a2 = []" by auto
  with fill_topics_result [OF s(3)] fill_authors_result [OF s(4)]
  show ?thesis
    by (simp add: split_space_def last_split_by after_last_space_def split: if_splits)
qed


theorem topics_and_authors_witness:
  "topics \<lparr>url = ''https://www.comnews.ru//content/a'', article_id = 1, title = ''News'',
        date = None, author = [''NOT FOUND''], topics = [''NOT FOUND''], body_text = []\<rparr>
     = [''NOT FOUND'']
   \<and> author \<lparr>url = ''https://www.comnews.ru//content/a'', article_id = 1, title = ''News'',
        date = None, author = [''NOT FOUND''], topics = [''NOT FOUND''], body_text = []\<rparr>
     = [''NOT FOUND'']
   \<and> (\<exists>ls. map (find_first (has_name ''a'')) [tag_box ''5G'', tag_box ''AI''] = map Some ls
          \<and> [''5G'', ''AI''] = map get_text ls)
   \<and> (\<exists>sps. map (find_first (has_name ''span'')) [author_box ''Ivan Petrov''] = map Some sps
          \<and> [''Petrov''] = map (\<lambda>sp. after_last_space (get_text sp)) sps)"
proof -
  have e1: "find_all (has_class ''tags'') plain_article_page = []"
    and e2: "find_all (has_class ''field field-text field-multiple person field-name-authors'')
           plain_article_page = []"
    by (simp_all add: page_defs find_all_def)
  have f1: "find_all (has_class ''tags'') full_article_page = [tag_box ''5G'', tag_box ''AI'']"
    and f2: "find_all (has_class ''field field-text field-multiple person field-name-authors'')
           full_article_page = [author_box ''Ivan Petrov'']"
    by (simp_all add: page_defs find_all_def)
  from topics_and_authors [OF request_always _ parse_plain [unfolded parser0_def]] e1 e2
  have 1: "topics \<lparr>url = ''https://www.comnews.ru//content/a'', article_id = 1, title = ''News'',
        date = None, author = [''NOT FOUND''], topics = [''NOT FOUND''], body_text = []\<rparr>
     = [''NOT FOUND'']
   \<and> author \<lparr>url = ''https://www.comnews.ru//content/a'', article_id = 1, title = ''News'',
        date = None, author = [''NOT FOUND''], topics = [''NOT FOUND''], body_text = []\<rparr>
     = [''NOT FOUND'']" by simp
  from topics_and_authors [OF request_always _ parse_full [unfolded parser0_def]] f1 f2
  have 2: "(\<exists>ls. map (find_first (has_name ''a'')) [tag_box ''5G'', tag_box ''AI''] = map Some ls
          \<and> [''5G'', ''AI''] = map get_text ls)
   \<and> (\<exists>sps. map (find_first (has_name ''span'')) [author_box ''Ivan Petrov''] = map Some sps
          \<and> [''Petrov''] = map (\<lambda>sp. after_last_space (get_text sp)) sps)" by simp
  from 1 2 show ?thesis by simp
qed

end
